theory Spec2Isabelle
  imports Main "HOL-Library.Sublist"
begin

section \<open>JavaScript values used by the analysis pipeline\<close>

text \<open>
  Strings are modelled as HOL strings (lists of 8-bit characters): the signatures the code
  looks for are ASCII. A value that is either a string or \<open>null\<close>/\<open>undefined\<close> is a
  \<open>string option\<close>; it is falsy when it is absent or the empty string.
\<close>

definition truthy :: "string option \<Rightarrow> bool" where
  "truthy v = (case v of None \<Rightarrow> False | Some s \<Rightarrow> s \<noteq> [])"

text \<open>Decimal rendering of a non-negative integer, as a template literal does it.\<close>

fun string_of_nat :: "nat \<Rightarrow> string" where
  "string_of_nat n =
     (if n < 10 then [char_of (48 + n)]
      else string_of_nat (n div 10) @ [char_of (48 + n mod 10)])"

declare string_of_nat.simps [simp del]

section \<open>SEO signals and the scoring engine\<close>

record openGraph =
  og_title :: "string option"
  og_description :: "string option"
  og_image :: "string option"

record seo =
  title :: "string option"
  titleLength :: nat
  metaDescription :: "string option"
  metaDescriptionLength :: nat
  h1Count :: nat
  h1Text :: "string option"
  imagesWithoutAlt :: nat
  canonical :: "string option"
  openGraph :: openGraph

record layout =
  hasHeader :: bool
  hasNav :: bool
  hasFooter :: bool
  hasHero :: bool
  hasMain :: bool
  sectionCount :: nat
  articleCount :: nat
  formCount :: nat
  buttonCount :: nat
  imageCount :: nat
  linkCount :: nat
  bodyTextLength :: nat

record scoreResult =
  score :: int
  issues :: "string list"

text \<open>
  \<open>calculateSEOScore\<close> keeps two locals, \<open>score\<close> and \<open>issues\<close>; every check
  that fires runs \<open>score -= d; issues.push(msg)\<close>. The pair of locals is threaded
  through the checks in the order of the source.
\<close>

type_synonym tally = "int \<times> string list"

definition deduct :: "int \<Rightarrow> string \<Rightarrow> tally \<Rightarrow> tally" where
  "deduct d msg t = (fst t - d, snd t @ [msg])"

definition images_issue :: "nat \<Rightarrow> string" where
  "images_issue n = string_of_nat n @ '' images without alt text''"

definition check_title :: "seo \<Rightarrow> tally \<Rightarrow> tally" where
  "check_title s t =
     (if \<not> truthy (title s) then deduct 20 ''Missing page title'' t
      else if titleLength s > 60 then deduct 5 ''Title too long (>60 chars)'' t
      else t)"

definition check_description :: "seo \<Rightarrow> tally \<Rightarrow> tally" where
  "check_description s t =
     (if \<not> truthy (metaDescription s) then deduct 15 ''Missing meta description'' t
      else if metaDescriptionLength s > 160
        then deduct 5 ''Meta description too long (>160 chars)'' t
      else t)"

definition check_no_h1 :: "seo \<Rightarrow> tally \<Rightarrow> tally" where
  "check_no_h1 s t = (if h1Count s = 0 then deduct 20 ''No H1 heading found'' t else t)"

definition check_multiple_h1 :: "seo \<Rightarrow> tally \<Rightarrow> tally" where
  "check_multiple_h1 s t = (if h1Count s > 1 then deduct 10 ''Multiple H1 headings'' t else t)"

definition check_images :: "seo \<Rightarrow> tally \<Rightarrow> tally" where
  "check_images s t =
     (if imagesWithoutAlt s > 0
      then deduct (min 10 (int (imagesWithoutAlt s) * 2)) (images_issue (imagesWithoutAlt s)) t
      else t)"

definition check_header :: "layout \<Rightarrow> tally \<Rightarrow> tally" where
  "check_header l t = (if \<not> hasHeader l then deduct 5 ''No header element'' t else t)"

definition check_footer :: "layout \<Rightarrow> tally \<Rightarrow> tally" where
  "check_footer l t = (if \<not> hasFooter l then deduct 5 ''No footer element'' t else t)"

definition check_canonical :: "seo \<Rightarrow> tally \<Rightarrow> tally" where
  "check_canonical s t = (if \<not> truthy (canonical s) then deduct 5 ''No canonical URL'' t else t)"

definition check_open_graph :: "seo \<Rightarrow> tally \<Rightarrow> tally" where
  "check_open_graph s t =
     (if \<not> truthy (og_title (openGraph s)) \<and> \<not> truthy (og_description (openGraph s))
      then deduct 10 ''Missing Open Graph tags'' t
      else t)"

text \<open>The locals just before the \<open>return\<close>: the score is not clamped yet.\<close>

definition seo_tally :: "seo \<Rightarrow> layout \<Rightarrow> tally" where
  "seo_tally s l =
     check_open_graph s (check_canonical s (check_footer l (check_header l
       (check_images s (check_multiple_h1 s (check_no_h1 s
         (check_description s (check_title s (100, [])))))))))"

definition calculateSEOScore :: "seo \<Rightarrow> layout \<Rightarrow> scoreResult" where
  "calculateSEOScore s l =
     \<lparr>score = max (fst (seo_tally s l)) 0, issues = snd (seo_tally s l)\<rparr>"

text \<open>
  The deduction table as the specification words it: the points each issue message
  stands for, and the fixed order in which the checks are listed.
\<close>

definition spec_points :: "seo \<Rightarrow> string \<Rightarrow> int" where
  "spec_points s msg =
     (if msg = ''Missing page title'' then 20
      else if msg = ''Title too long (>60 chars)'' then 5
      else if msg = ''Missing meta description'' then 15
      else if msg = ''Meta description too long (>160 chars)'' then 5
      else if msg = ''No H1 heading found'' then 20
      else if msg = ''Multiple H1 headings'' then 10
      else if msg = ''No header element'' then 5
      else if msg = ''No footer element'' then 5
      else if msg = ''No canonical URL'' then 5
      else if msg = ''Missing Open Graph tags'' then 10
      else if msg = images_issue (imagesWithoutAlt s)
        then min 10 (2 * int (imagesWithoutAlt s))
      else 0)"

definition spec_check_order :: "seo \<Rightarrow> string list" where
  "spec_check_order s =
     [''Missing page title'', ''Title too long (>60 chars)'',
      ''Missing meta description'', ''Meta description too long (>160 chars)'',
      ''No H1 heading found'', ''Multiple H1 headings'',
      images_issue (imagesWithoutAlt s),
      ''No header element'', ''No footer element'',
      ''No canonical URL'', ''Missing Open Graph tags'']"

text \<open>
  \<open>explains s slot t t'\<close>: the step from \<open>t\<close> to \<open>t'\<close> appended some messages
  \<open>e\<close>, taken in order from \<open>slot\<close>, and took off exactly the points of \<open>e\<close>.
\<close>

definition explains :: "seo \<Rightarrow> string list \<Rightarrow> tally \<Rightarrow> tally \<Rightarrow> bool" where
  "explains s slot t t' =
     (\<exists>e. subseq e slot \<and> snd t' = snd t @ e \<and>
          fst t' = fst t - sum_list (map (spec_points s) e) \<and>
          list_all (\<lambda>m. 0 < spec_points s m) e)"

section \<open>Accessibility checker\<close>

text \<open>
  \<open>checkAccessibility\<close> reads the parsed document through four queries; the record
  holds their results: the \<open>lang\<close> attribute of \<open>html\<close>, the number of
  \<open>img:not([alt])\<close> and of \<open>a:not([href])\<close> elements, and, for the elements matched
  by \<open>h1, h2, h3, h4, h5, h6\<close> in document order, the number \<open>parseInt(el.tagName[1])\<close>.
\<close>

record document =
  html_lang :: "string option"
  img_not_alt :: nat
  a_not_href :: nat
  headingOrder :: "int list"

text \<open>The \<open>for\<close> loop over \<open>headingOrder\<close>, from index \<open>i\<close> on, with its \<open>break\<close>.\<close>

function heading_scan :: "int list \<Rightarrow> nat \<Rightarrow> bool" where
  "heading_scan hs i =
     (if i < length hs
      then (if hs ! i - hs ! (i - 1) > 1 then True else heading_scan hs (Suc i))
      else False)"
  by pat_completeness auto
termination
  by (relation "measure (\<lambda>(hs, i). length hs - i)") auto

declare heading_scan.simps [simp del]

definition missing_alt_issue :: "nat \<Rightarrow> string" where
  "missing_alt_issue n = string_of_nat n @ '' images missing alt text''"

definition checkAccessibility :: "document \<Rightarrow> string list" where
  "checkAccessibility d =
     (let issues0 = [];
          issues1 = (if \<not> truthy (html_lang d)
                     then issues0 @ [''Missing lang attribute on <html>''] else issues0);
          imgWithoutAlt = img_not_alt d;
          issues2 = (if imgWithoutAlt > 0
                     then issues1 @ [missing_alt_issue imgWithoutAlt] else issues1);
          issues3 = (if a_not_href d > 0
                     then issues2 @ [''Links without href attribute''] else issues2);
          skippedHeading = heading_scan (headingOrder d) 1;
          issues4 = (if skippedHeading
                     then issues3 @ [''Skipped heading levels detected''] else issues3)
      in issues4)"

section \<open>Technology detector\<close>

text \<open>\<open>String.prototype.toLowerCase\<close> on ASCII text.\<close>

definition lower_char :: "char \<Rightarrow> char" where
  "lower_char c =
     (let n = (of_char c :: nat) in if 65 \<le> n \<and> n \<le> 90 then char_of (n + 32) else c)"

definition toLowerCase :: "string \<Rightarrow> string" where
  "toLowerCase s = map lower_char s"

text \<open>\<open>s.includes(sub)\<close>: \<open>sub\<close> occurs in \<open>s\<close> as a contiguous run.\<close>

fun str_includes :: "string \<Rightarrow> string \<Rightarrow> bool" where
  "str_includes [] sub = (sub = [])"
| "str_includes (c # cs) sub = (prefix sub (c # cs) \<or> str_includes cs sub)"

text \<open>\<open>Array.prototype.join\<close>.\<close>

fun join :: "string \<Rightarrow> string list \<Rightarrow> string" where
  "join sep [] = []"
| "join sep [x] = x"
| "join sep (x # y # ys) = x @ sep @ join sep (y # ys)"

text \<open>
  \<open>[...new Set(tech)]\<close>: the elements are added to the set one by one, an element that
  is already there is not added again, and the spread lists them in insertion order.
\<close>

definition set_add :: "'a list \<Rightarrow> 'a \<Rightarrow> 'a list" where
  "set_add acc x = (if x \<in> set acc then acc else acc @ [x])"

definition set_spread :: "'a list \<Rightarrow> 'a list" where
  "set_spread xs = foldl set_add [] xs"

definition push_if :: "bool \<Rightarrow> 'a \<Rightarrow> 'a list \<Rightarrow> 'a list" where
  "push_if b x xs = (if b then xs @ [x] else xs)"

text \<open>
  \<open>detectTechStack\<close> queries the live page twice: \<open>generator\<close> is the content of the
  generator meta tag (\<open>null\<close> when the query fails) and \<open>scripts\<close> the list of
  \<open>el.src || ""\<close> over the script elements; \<open>html\<close> is the serialized document.
\<close>

definition detectTechStack :: "string option \<Rightarrow> string list \<Rightarrow> string \<Rightarrow> string list" where
  "detectTechStack generator scripts html =
     (let lower = toLowerCase html;
          tech = (case generator of None \<Rightarrow> [] | Some g \<Rightarrow> if g \<noteq> [] then [g] else []);
          scriptString = toLowerCase (join '' '' scripts);
          tech = push_if (str_includes scriptString ''react'') ''React'' tech;
          tech = push_if (str_includes scriptString ''vue'') ''Vue'' tech;
          tech = push_if (str_includes scriptString ''angular'') ''Angular'' tech;
          tech = push_if (str_includes scriptString ''_next'') ''Next.js'' tech;
          tech = push_if (str_includes scriptString ''nuxt'') ''Nuxt.js'' tech;
          tech = push_if (str_includes scriptString ''svelte'') ''Svelte'' tech;
          tech = push_if (str_includes scriptString ''bootstrap'') ''Bootstrap'' tech;
          tech = push_if (str_includes scriptString ''tailwind'') ''Tailwind CSS'' tech;
          tech = push_if (str_includes scriptString ''wp-content'') ''WordPress'' tech;
          tech = push_if (str_includes scriptString ''woocommerce'') ''WooCommerce'' tech;
          tech = push_if (str_includes scriptString ''shopify'') ''Shopify'' tech;
          tech = push_if (str_includes scriptString ''squarespace'') ''Squarespace'' tech;
          tech = push_if (str_includes scriptString ''wix'') ''Wix'' tech;
          tech = push_if (str_includes lower ''id=\"root\"'') ''React (likely)'' tech;
          tech = push_if (str_includes lower ''id=\"__next\"'') ''Next.js'' tech;
          tech = push_if (str_includes lower ''id=\"__nuxt\"'') ''Nuxt.js'' tech
      in set_spread tech)"

text \<open>\<open>detectTrackers\<close>: the matched names, in the order of the checks.\<close>

definition detectTrackers :: "string \<Rightarrow> string list" where
  "detectTrackers html =
     (let lower = toLowerCase html;
          trackers = [];
          trackers = push_if (str_includes lower ''googletagmanager'')
                       ''Google Tag Manager'' trackers;
          trackers = push_if (str_includes lower ''google-analytics''
                              \<or> str_includes lower ''ga.js'') ''Google Analytics'' trackers;
          trackers = push_if (str_includes lower ''fbq('' \<or> str_includes lower ''facebook'')
                       ''Facebook Pixel'' trackers;
          trackers = push_if (str_includes lower ''tiktok'') ''TikTok Pixel'' trackers;
          trackers = push_if (str_includes lower ''hotjar'') ''Hotjar'' trackers;
          trackers = push_if (str_includes lower ''clarity.ms'') ''Microsoft Clarity'' trackers;
          trackers = push_if (str_includes lower ''segment.com'') ''Segment'' trackers;
          trackers = push_if (str_includes lower ''mixpanel'') ''Mixpanel'' trackers;
          trackers = push_if (str_includes lower ''intercom'') ''Intercom'' trackers
      in trackers)"

text \<open>
  The detector's rule table as the specification describes it: pairs of a signature and
  the name it stands for, one table tested against the lower-cased script URLs and one
  against the lower-cased document text. The matched names of a table are the names
  whose signature occurs in the text.
\<close>

definition spec_script_signatures :: "(string \<times> string) list" where
  "spec_script_signatures =
     [(''react'', ''React''), (''vue'', ''Vue''), (''angular'', ''Angular''),
      (''_next'', ''Next.js''), (''nuxt'', ''Nuxt.js''), (''svelte'', ''Svelte''),
      (''bootstrap'', ''Bootstrap''), (''tailwind'', ''Tailwind CSS''),
      (''wp-content'', ''WordPress''), (''woocommerce'', ''WooCommerce''),
      (''shopify'', ''Shopify''), (''squarespace'', ''Squarespace''), (''wix'', ''Wix'')]"

definition spec_root_signatures :: "(string \<times> string) list" where
  "spec_root_signatures =
     [(''id=\"root\"'', ''React (likely)''), (''id=\"__next\"'', ''Next.js''),
      (''id=\"__nuxt\"'', ''Nuxt.js'')]"

definition spec_matched_names :: "(string \<times> string) list \<Rightarrow> string \<Rightarrow> string list" where
  "spec_matched_names table text =
     map snd (filter (\<lambda>rule. str_includes text (fst rule)) table)"

definition spec_generator_names :: "string option \<Rightarrow> string list" where
  "spec_generator_names generator =
     (case generator of None \<Rightarrow> [] | Some g \<Rightarrow> if g \<noteq> [] then [g] else [])"

section \<open>URL normalizer\<close>

text \<open>
  \<open>normalizeUrl\<close> relies on the platform's \<open>URL\<close> class: the constructor, the
  \<open>protocol\<close> setter and the \<open>href\<close> getter. The class is not part of the repository;
  it is modelled here after the URL Standard that the platform implements. A URL record
  holds the components of a parsed URL.
\<close>

datatype url_path = Opaque string | Segments "string list"

record url =
  scheme :: string
  username :: string
  password :: string
  host :: "string option"
  port :: "nat option"
  path :: url_path
  query :: "string option"
  fragment :: "string option"

definition special_scheme :: "string \<Rightarrow> bool" where
  "special_scheme s = (s \<in> set [''ftp'', ''file'', ''http'', ''https'', ''ws'', ''wss''])"

definition default_port :: "string \<Rightarrow> nat option" where
  "default_port s =
     (if s = ''ftp'' then Some 21
      else if s = ''http'' \<or> s = ''ws'' then Some 80
      else if s = ''https'' \<or> s = ''wss'' then Some 443
      else None)"

definition ascii_alpha :: "char \<Rightarrow> bool" where
  "ascii_alpha c =
     (let n = (of_char c :: nat) in (65 \<le> n \<and> n \<le> 90) \<or> (97 \<le> n \<and> n \<le> 122))"

definition ascii_digit :: "char \<Rightarrow> bool" where
  "ascii_digit c = (let n = (of_char c :: nat) in 48 \<le> n \<and> n \<le> 57)"

definition scheme_char :: "char \<Rightarrow> bool" where
  "scheme_char c = (ascii_alpha c \<or> ascii_digit c \<or> c \<in> set ''+-.'')"

definition c0_or_space :: "char \<Rightarrow> bool" where
  "c0_or_space c = ((of_char c :: nat) \<le> 32)"

definition tab_or_newline :: "char \<Rightarrow> bool" where
  "tab_or_newline c = ((of_char c :: nat) \<in> set [9, 10, 13])"

text \<open>
  The parser first strips leading and trailing C0 control characters and spaces and
  removes every tab and newline.
\<close>

definition strip_input :: "string \<Rightarrow> string" where
  "strip_input s =
     filter (\<lambda>c. \<not> tab_or_newline c)
       (rev (dropWhile c0_or_space (rev (dropWhile c0_or_space s))))"

text \<open>
  Scheme start state and scheme state: a letter, then letters, digits, \<open>+\<close>, \<open>-\<close> and
  \<open>.\<close> up to a colon. The result is the lower-cased scheme and the input after the colon;
  \<open>None\<close> when the input has no scheme.
\<close>

fun scheme_state :: "string \<Rightarrow> string \<Rightarrow> (string \<times> string) option" where
  "scheme_state buffer [] = None"
| "scheme_state buffer (c # cs) =
     (if scheme_char c then scheme_state (buffer @ [lower_char c]) cs
      else if c = CHR '':'' then Some (buffer, cs)
      else None)"

definition scheme_start_state :: "string \<Rightarrow> (string \<times> string) option" where
  "scheme_start_state s =
     (case s of [] \<Rightarrow> None
      | c # cs \<Rightarrow> if ascii_alpha c then scheme_state [lower_char c] cs else None)"

text \<open>
  Opaque-path state, for the inputs on which it copies the rest of the input into the
  path unchanged: printable ASCII without \<open>?\<close> and \<open>#\<close>.
\<close>

definition plain_opaque :: "string \<Rightarrow> bool" where
  "plain_opaque s =
     list_all (\<lambda>c. 33 \<le> (of_char c :: nat) \<and> (of_char c :: nat) \<le> 126
                  \<and> c \<noteq> CHR ''?'' \<and> c \<noteq> CHR ''#'') s"

text \<open>
  \<open>new URL(input)\<close> with no base URL; \<open>None\<close> stands for the \<open>TypeError\<close> the
  constructor throws. Without a scheme the input cannot be parsed. After the scheme, a
  scheme that is not special followed by something that does not start with a slash has
  an opaque path. The other parser states (authority, host, port, path segments, query,
  fragment, percent-encoding) are not spelled out: \<open>after_scheme\<close>, given the scheme and
  the rest of the input, stands for them.
\<close>

definition url_parse :: "(string \<Rightarrow> string \<Rightarrow> url option) \<Rightarrow> string \<Rightarrow> url option" where
  "url_parse after_scheme input =
     (case scheme_start_state (strip_input input) of
        None \<Rightarrow> None
      | Some (sch, rest) \<Rightarrow>
          if \<not> special_scheme sch \<and> \<not> prefix ''/'' rest \<and> plain_opaque rest
          then Some \<lparr>scheme = sch, username = [], password = [], host = None, port = None,
                     path = Opaque rest, query = None, fragment = None\<rparr>
          else after_scheme sch rest)"

text \<open>
  The \<open>protocol\<close> setter runs the scheme states on the value followed by a colon. The
  assignment is ignored when the value has no scheme, when it would turn a special
  scheme into a non-special one or the reverse, when the new scheme is \<open>file\<close> and the
  URL has credentials or a port, and when the URL is a \<open>file\<close> URL with an empty host.
\<close>

definition set_protocol :: "url \<Rightarrow> string \<Rightarrow> url" where
  "set_protocol u v =
     (case scheme_start_state (filter (\<lambda>c. \<not> tab_or_newline c) (v @ '':'')) of
        None \<Rightarrow> u
      | Some (buffer, rest) \<Rightarrow>
          if special_scheme (scheme u) \<noteq> special_scheme buffer then u
          else if (username u \<noteq> [] \<or> password u \<noteq> [] \<or> port u \<noteq> None)
                  \<and> buffer = ''file'' then u
          else if scheme u = ''file'' \<and> host u = Some [] then u
          else u\<lparr>scheme := buffer,
                 port := (if port u = default_port buffer then None else port u)\<rparr>)"

text \<open>The \<open>href\<close> getter: the URL serializer.\<close>

definition path_string :: "url_path \<Rightarrow> string" where
  "path_string p =
     (case p of Opaque s \<Rightarrow> s | Segments ss \<Rightarrow> concat (map (\<lambda>s. ''/'' @ s) ss))"

definition href :: "url \<Rightarrow> string" where
  "href u =
     scheme u @ '':''
     @ (case host u of
          Some h \<Rightarrow>
            ''//''
            @ (if username u \<noteq> [] \<or> password u \<noteq> []
               then username u @ (if password u \<noteq> [] then '':'' @ password u else [])
                    @ ''@''
               else [])
            @ h
            @ (case port u of None \<Rightarrow> [] | Some p \<Rightarrow> '':'' @ string_of_nat p)
        | None \<Rightarrow>
            (case path u of
               Segments (a # b # ss) \<Rightarrow> if a = [] then ''/.'' else []
             | _ \<Rightarrow> []))
     @ path_string (path u)
     @ (case query u of None \<Rightarrow> [] | Some q \<Rightarrow> ''?'' @ q)
     @ (case fragment u of None \<Rightarrow> [] | Some f \<Rightarrow> ''#'' @ f)"

text \<open>The function of the source: the \<open>catch\<close> branch is the parse failure.\<close>

definition normalizeUrl :: "(string \<Rightarrow> string \<Rightarrow> url option) \<Rightarrow> string \<Rightarrow> string" where
  "normalizeUrl after_scheme input =
     (case url_parse after_scheme input of
        Some parsed \<Rightarrow> href (set_protocol parsed ''https:'')
      | None \<Rightarrow> ''https://'' @ input)"

section \<open>The analyze route\<close>

text \<open>
  The handler of \<open>POST /analyze\<close> drives the browser through awaited calls, each of which
  either resolves or rejects with an error. What the browser and the page answer is the
  environment of one request; the handler is a function of that environment. Its run is
  recorded as a trace of the calls it made, each with its outcome.
\<close>

datatype waitUntil = NetworkIdle2 | DomContentLoaded | Load

record js_error =
  message :: string
  stack :: string

text \<open>
  \<open>new Error(m)\<close>: the stack text starts with the error's name and message; the call
  frames that follow are the environment's.
\<close>

definition new_Error :: "string \<Rightarrow> string \<Rightarrow> js_error" where
  "new_Error frames m = \<lparr>message = m, stack = ''Error: '' @ m @ frames\<rparr>"

datatype call =
  LaunchBrowser
| NewPage
| SetUserAgent
| Goto string waitUntil nat
| Delay nat
| Screenshot
| Content
| EvalGenerator
| EvalScripts
| EvalPerformance
| ClosePage

text \<open>
  \<open>Call c ok\<close>: the handler awaited \<open>c\<close>, which resolved (\<open>ok\<close>) or rejected.
  \<open>LoadedWith w\<close>: the log line that reports the completion signal the page was loaded
  with, the only record the handler keeps of it.
\<close>

datatype event = Call call bool | LoadedWith waitUntil

record env =
  browser_launched :: bool
  launch_result :: "js_error + unit"
  newPage_result :: "js_error + unit"
  setUserAgent_result :: "js_error + unit"
  goto_result :: "waitUntil \<Rightarrow> js_error + unit"
  screenshot_result :: "js_error + unit"
  content_result :: "js_error + string"
  cheerio_layout :: layout
  cheerio_seo :: seo
  cheerio_document :: document
  generator_result :: "js_error + string"
  scripts_result :: "js_error + string list"
  performance_result :: "js_error + unit"
  close_result :: "nat \<Rightarrow> js_error + unit"
  error_frames :: string

record request =
  targetUrl :: "string option"
  quickMode :: bool

text \<open>
  The report, without its opaque payloads (screenshot bytes, timing numbers, security
  findings, timestamps).
\<close>

record report =
  report_url :: string
  techStack :: "string list"
  trackers :: "string list"
  report_layout :: layout
  report_seo :: seo
  seo_score :: int
  seo_issues :: "string list"
  accessibility :: "string list"

datatype response =
  Json400
| Json200 report
| Json500 string string string

text \<open>
  The handler either sends a response or, when an error escapes its \<open>catch\<close> block,
  rejects without sending one.
\<close>

datatype outcome = Responded response | Rejected js_error

text \<open>The handler's locals that matter, and the trace so far.\<close>

record st =
  trace :: "event list"
  page :: bool
  loadSuccess :: bool

type_synonym 'a step = "st \<Rightarrow> (js_error + 'a) \<times> st"

definition ret :: "'a \<Rightarrow> 'a step" where
  "ret a s = (Inr a, s)"

definition throw_error :: "js_error \<Rightarrow> 'a step" where
  "throw_error e s = (Inl e, s)"

definition and_then :: "'a step \<Rightarrow> ('a \<Rightarrow> 'b step) \<Rightarrow> 'b step" where
  "and_then m f s = (case m s of (Inl e, s') \<Rightarrow> (Inl e, s') | (Inr a, s') \<Rightarrow> f a s')"

definition try_catch :: "'a step \<Rightarrow> (js_error \<Rightarrow> 'a step) \<Rightarrow> 'a step" where
  "try_catch m h s = (case m s of (Inl e, s') \<Rightarrow> h e s' | (Inr a, s') \<Rightarrow> (Inr a, s'))"

definition await :: "call \<Rightarrow> js_error + 'a \<Rightarrow> 'a step" where
  "await c r s =
     (case r of
        Inl e \<Rightarrow> (Inl e, s\<lparr>trace := trace s @ [Call c False]\<rparr>)
      | Inr a \<Rightarrow> (Inr a, s\<lparr>trace := trace s @ [Call c True]\<rparr>))"

definition initBrowser :: "env \<Rightarrow> unit step" where
  "initBrowser e = (if browser_launched e then ret () else await LaunchBrowser (launch_result e))"

text \<open>One strategy: \<open>await page.goto(...)\<close>, then \<open>loadSuccess = true\<close> and the log line.\<close>

definition load_with :: "env \<Rightarrow> string \<Rightarrow> waitUntil \<Rightarrow> nat \<Rightarrow> unit step" where
  "load_with e target w timeout =
     and_then (await (Goto target w timeout) (goto_result e w))
       (\<lambda>_ s. (Inr (), s\<lparr>trace := trace s @ [LoadedWith w], loadSuccess := True\<rparr>))"

definition unable_to_load :: "string \<Rightarrow> string" where
  "unable_to_load target =
     ''Unable to load '' @ target
     @ ''. The site may be blocking automated access, experiencing issues, or taking too long to respond.''"

text \<open>The three nested \<open>try\<close> blocks.\<close>

definition navigate :: "env \<Rightarrow> string \<Rightarrow> nat \<Rightarrow> unit step" where
  "navigate e target timeout =
     try_catch (load_with e target NetworkIdle2 timeout)
       (\<lambda>navError. try_catch (load_with e target DomContentLoaded timeout)
          (\<lambda>navError2. try_catch (load_with e target Load timeout)
             (\<lambda>navError3. throw_error (new_Error (error_frames e) (unable_to_load target)))))"

text \<open>\<open>page.close()\<close>; its outcome may depend on how often it was called before.\<close>

definition close_calls :: "event list \<Rightarrow> nat" where
  "close_calls tr = length (filter (\<lambda>ev. ev = Call ClosePage True \<or> ev = Call ClosePage False) tr)"

definition close_page :: "env \<Rightarrow> unit step" where
  "close_page e s = await ClosePage (close_result e (close_calls (trace s))) s"

text \<open>The two live-page queries of \<open>detectTechStack\<close>; the first has its own \<open>catch\<close>.\<close>

definition detectTechStack_on_page :: "env \<Rightarrow> string \<Rightarrow> string list step" where
  "detectTechStack_on_page e html =
     and_then (try_catch (and_then (await EvalGenerator (generator_result e)) (\<lambda>g. ret (Some g)))
                 (\<lambda>_. ret None))
       (\<lambda>generator. and_then (await EvalScripts (scripts_result e))
          (\<lambda>scripts. ret (detectTechStack generator scripts html)))"

text \<open>
  The part of the \<open>try\<close> block that works on the page, from \<open>setUserAgent\<close> to the
  response.
\<close>

definition with_page :: "env \<Rightarrow> request \<Rightarrow> string \<Rightarrow> response step" where
  "with_page e req target =
     and_then (await SetUserAgent (setUserAgent_result e)) (\<lambda>_.
     let timeout = (if quickMode req then 30000 else 60000);
         waitTime = (if quickMode req then 1000 else 3000) in
     and_then (navigate e target timeout) (\<lambda>_.
     and_then (await (Delay waitTime) (Inr ())) (\<lambda>_.
     and_then (await Screenshot (screenshot_result e)) (\<lambda>_.
     and_then (await Content (content_result e)) (\<lambda>html.
     let layout = cheerio_layout e;
         seo = cheerio_seo e in
     and_then (detectTechStack_on_page e html) (\<lambda>tech.
     and_then (await EvalPerformance (performance_result e)) (\<lambda>_.
     let access = checkAccessibility (cheerio_document e);
         seoResult = calculateSEOScore seo layout;
         result = \<lparr>report_url = target, techStack = tech,
                   trackers = detectTrackers html, report_layout = layout,
                   report_seo = seo, seo_score = score seoResult,
                   seo_issues = issues seoResult, accessibility = access\<rparr> in
     and_then (close_page e) (\<lambda>_. ret (Json200 result)))))))))"

text \<open>The body of the handler's \<open>try\<close> block.\<close>

definition try_block ::
  "(string \<Rightarrow> string \<Rightarrow> url option) \<Rightarrow> env \<Rightarrow> request \<Rightarrow> response step" where
  "try_block after_scheme e req =
     and_then (initBrowser e) (\<lambda>_.
       case targetUrl req of
         None \<Rightarrow> ret Json400
       | Some raw \<Rightarrow>
           if raw = [] then ret Json400
           else
             let target = normalizeUrl after_scheme raw in
             and_then (await NewPage (newPage_result e)) (\<lambda>_.
             and_then (\<lambda>s. (Inr (), s\<lparr>page := True\<rparr>)) (\<lambda>_.
             with_page e req target)))"

text \<open>The \<open>catch\<close> block's choice of error type and user message.\<close>

definition error_response :: "js_error \<Rightarrow> response" where
  "error_response error =
     (let m = message error;
          details = (if stack error \<noteq> [] then stack error else m) in
      if str_includes m ''Navigation timeout'' \<or> str_includes m ''timeout''
      then Json500 ''Timeout Error''
             ''The website took too long to respond. This could be due to: slow server response, heavy page content, or network issues. Try again or test a different URL.''
             details
      else if str_includes m ''net::ERR_NAME_NOT_RESOLVED''
      then Json500 ''DNS Error''
             ''Could not resolve the domain name. Please check the URL and try again.''
             details
      else if str_includes m ''net::ERR_CONNECTION_REFUSED''
      then Json500 ''Connection Refused''
             ''The server refused the connection. The website might be down or blocking requests.''
             details
      else if str_includes m ''net::ERR_CERT''
      then Json500 ''SSL Certificate Error''
             ''SSL certificate issue detected. The website may have an invalid or expired certificate.''
             details
      else Json500 ''Failed to analyze website'' m details)"

text \<open>The locals when the handler starts: \<open>page\<close> is not assigned yet.\<close>

definition start :: st where
  "start = \<lparr>trace = [], page = False, loadSuccess = False\<rparr>"

text \<open>The handler: the \<open>try\<close> block, and the \<open>catch\<close> block when it threw.\<close>

definition analyze ::
  "(string \<Rightarrow> string \<Rightarrow> url option) \<Rightarrow> env \<Rightarrow> request \<Rightarrow> outcome \<times> st" where
  "analyze after_scheme e req =
     (case try_block after_scheme e req start of
        (Inr resp, s) \<Rightarrow> (Responded resp, s)
      | (Inl error, s) \<Rightarrow>
          (case (if page s then close_page e s else (Inr (), s)) of
             (Inl closeError, s') \<Rightarrow> (Rejected closeError, s')
           | (Inr _, s') \<Rightarrow> (Responded (error_response error), s')))"

text \<open>
  Page contexts along a trace. A page context is live from the moment \<open>newPage\<close>
  resolves until a call of \<open>close\<close> on it resolves; a call of \<open>close\<close> that rejects
  leaves it open. \<open>held\<close> says whether the page the handler holds is live, \<open>peak\<close> is
  the largest number of live pages so far, \<open>created\<close> the number of pages created.
\<close>

record pages =
  live :: nat
  held :: bool
  peak :: nat
  created :: nat

definition track :: "pages \<Rightarrow> event \<Rightarrow> pages" where
  "track p ev =
     (if ev = Call NewPage True
      then \<lparr>live = live p + 1, held = True, peak = max (peak p) (live p + 1),
            created = created p + 1\<rparr>
      else if ev = Call ClosePage True \<and> held p
      then p\<lparr>live := live p - 1, held := False\<rparr>
      else p)"

definition pages_of :: "event list \<Rightarrow> pages" where
  "pages_of tr = foldl track \<lparr>live = 0, held = False, peak = 0, created = 0\<rparr> tr"

definition pages_none :: pages where
  "pages_none = \<lparr>live = 0, held = False, peak = 0, created = 0\<rparr>"

definition pages_open :: pages where
  "pages_open = \<lparr>live = 1, held = True, peak = 1, created = 1\<rparr>"

definition pages_released :: pages where
  "pages_released = \<lparr>live = 0, held = False, peak = 1, created = 1\<rparr>"

text \<open>
  What the proofs below track of a state: whether the handler holds a page, and the page
  contexts along the trace. A step is neutral when it changes neither; it is closing
  when, started with the page open, it has closed the page when it returns a value and
  has left it open when it throws.
\<close>

definition phase :: "st \<Rightarrow> bool \<times> pages" where
  "phase s = (page s, pages_of (trace s))"

definition neutral :: "'a step \<Rightarrow> bool" where
  "neutral m = (\<forall>s. phase (snd (m s)) = phase s)"

definition closing :: "'a step \<Rightarrow> bool" where
  "closing m =
     (\<forall>s. phase s = (True, pages_open) \<longrightarrow>
        (case m s of
           (Inr a, s') \<Rightarrow> phase s' = (True, pages_released)
         | (Inl e, s') \<Rightarrow> phase s' = (True, pages_open)))"

text \<open>The technical details of an error response.\<close>

definition technicalDetails :: "response \<Rightarrow> string" where
  "technicalDetails r = (case r of Json500 ty msg details \<Rightarrow> details | _ \<Rightarrow> [])"

text \<open>
  Sample environments: a page that completes only the \<open>load\<close> signal, and a browser
  whose connection is lost after the page was set up, so that every later call on the
  page rejects, \<open>close\<close> included. The sample request's URL has no scheme, so the
  parser states behind \<open>after_scheme\<close> are not reached.
\<close>

definition navigation_timeout :: js_error where
  "navigation_timeout =
     \<lparr>message = ''Navigation timeout of 60000 ms exceeded'',
      stack = ''TimeoutError: Navigation timeout of 60000 ms exceeded''\<rparr>"

definition connection_closed :: js_error where
  "connection_closed =
     \<lparr>message = ''Protocol error: Connection closed.'',
      stack = ''Error: Protocol error: Connection closed.''\<rparr>"

definition sample_layout :: layout where
  "sample_layout =
     \<lparr>hasHeader = True, hasNav = True, hasFooter = True, hasHero = False, hasMain = True,
      sectionCount = 2, articleCount = 0, formCount = 1, buttonCount = 1, imageCount = 3,
      linkCount = 7, bodyTextLength = 1200\<rparr>"

definition sample_seo :: seo where
  "sample_seo =
     \<lparr>title = Some ''Example'', titleLength = 7, metaDescription = None,
      metaDescriptionLength = 0, h1Count = 1, h1Text = Some ''Example'',
      imagesWithoutAlt = 1, canonical = None,
      openGraph = \<lparr>og_title = None, og_description = None, og_image = None\<rparr>\<rparr>"

definition sample_document :: document where
  "sample_document =
     \<lparr>html_lang = Some ''en'', img_not_alt = 1, a_not_href = 0, headingOrder = [1, 2, 4]\<rparr>"

definition goto_load_only :: "waitUntil \<Rightarrow> js_error + unit" where
  "goto_load_only w = (if w = Load then Inr () else Inl navigation_timeout)"

definition goto_closed :: "waitUntil \<Rightarrow> js_error + unit" where
  "goto_closed w = Inl connection_closed"

definition close_ok :: "nat \<Rightarrow> js_error + unit" where
  "close_ok n = Inr ()"

definition close_closed :: "nat \<Rightarrow> js_error + unit" where
  "close_closed n = Inl connection_closed"

definition load_only_env :: env where
  "load_only_env =
     \<lparr>browser_launched = True, launch_result = Inr (), newPage_result = Inr (),
      setUserAgent_result = Inr (), goto_result = goto_load_only,
      screenshot_result = Inr (), content_result = Inr ''<html lang=\"en\"></html>'',
      cheerio_layout = sample_layout, cheerio_seo = sample_seo,
      cheerio_document = sample_document, generator_result = Inl connection_closed,
      scripts_result = Inr [], performance_result = Inr (), close_result = close_ok,
      error_frames = []\<rparr>"

definition lost_env :: env where
  "lost_env = load_only_env\<lparr>goto_result := goto_closed, close_result := close_closed\<rparr>"

definition sample_request :: request where
  "sample_request = \<lparr>targetUrl = Some ''example.com'', quickMode = False\<rparr>"

definition unreached :: "string \<Rightarrow> string \<Rightarrow> url option" where
  "unreached sch rest = None"

section \<open>Scoring: boundary value, range, explainability\<close>

lemma deduct_fst [simp]: "fst (deduct d m t) = fst t - d"
  by (simp add: deduct_def)

lemma deduct_snd [simp]: "snd (deduct d m t) = snd t @ [m]"
  by (simp add: deduct_def)

lemmas seo_check_defs =
  check_title_def check_description_def check_no_h1_def check_multiple_h1_def
  check_images_def check_header_def check_footer_def check_canonical_def
  check_open_graph_def

text \<open>
  C5. The boundary input of the specification (no title, no meta description, no H1, no
  image without alt text, no canonical link, no Open Graph title or description, neither
  header nor footer) scores 20 and lists exactly seven issues. The fields the input leaves
  out (lengths, first H1 text, Open Graph image, the other layout fields) do not matter.
\<close>

theorem calculateSEOScore_boundary:
  "calculateSEOScore
     (s\<lparr>title := None, metaDescription := None, h1Count := 0, imagesWithoutAlt := 0,
        canonical := None,
        openGraph := (openGraph s)\<lparr>og_title := None, og_description := None\<rparr>\<rparr>)
     (l\<lparr>hasHeader := False, hasFooter := False\<rparr>)
   = \<lparr>score = 20,
      issues = [''Missing page title'', ''Missing meta description'', ''No H1 heading found'',
                ''No header element'', ''No footer element'', ''No canonical URL'',
                ''Missing Open Graph tags'']\<rparr>
   \<and> length (issues (calculateSEOScore
     (s\<lparr>title := None, metaDescription := None, h1Count := 0, imagesWithoutAlt := 0,
        canonical := None,
        openGraph := (openGraph s)\<lparr>og_title := None, og_description := None\<rparr>\<rparr>)
     (l\<lparr>hasHeader := False, hasFooter := False\<rparr>))) = 7"
  by (simp add: calculateSEOScore_def seo_tally_def seo_check_defs truthy_def deduct_def)

subsection \<open>Range of the score\<close>

lemma check_title_bounds:
  "fst t - 20 \<le> fst (check_title s t) \<and> fst (check_title s t) \<le> fst t"
  by (simp add: check_title_def)

lemma check_description_bounds:
  "fst t - 15 \<le> fst (check_description s t) \<and> fst (check_description s t) \<le> fst t"
  by (simp add: check_description_def)

lemma check_h1_bounds:
  "fst t - 20 \<le> fst (check_multiple_h1 s (check_no_h1 s t)) \<and>
   fst (check_multiple_h1 s (check_no_h1 s t)) \<le> fst t"
  by (simp add: check_no_h1_def check_multiple_h1_def)

lemma check_images_bounds:
  "fst t - 10 \<le> fst (check_images s t) \<and> fst (check_images s t) \<le> fst t"
  by (simp add: check_images_def)

lemma check_header_bounds:
  "fst t - 5 \<le> fst (check_header l t) \<and> fst (check_header l t) \<le> fst t"
  by (simp add: check_header_def)

lemma check_footer_bounds:
  "fst t - 5 \<le> fst (check_footer l t) \<and> fst (check_footer l t) \<le> fst t"
  by (simp add: check_footer_def)

lemma check_canonical_bounds:
  "fst t - 5 \<le> fst (check_canonical s t) \<and> fst (check_canonical s t) \<le> fst t"
  by (simp add: check_canonical_def)

lemma check_open_graph_bounds:
  "fst t - 10 \<le> fst (check_open_graph s t) \<and> fst (check_open_graph s t) \<le> fst t"
  by (simp add: check_open_graph_def)

text \<open>
  Before the clamp the score is already between 10 and 100: the two H1 checks exclude each
  other, so at most 90 points are lost.
\<close>

lemma seo_tally_bounds: "10 \<le> fst (seo_tally s l) \<and> fst (seo_tally s l) \<le> 100"
proof -
  define t1 where "t1 = check_title s (100, [])"
  define t2 where "t2 = check_description s t1"
  define t3 where "t3 = check_multiple_h1 s (check_no_h1 s t2)"
  define t4 where "t4 = check_images s t3"
  define t5 where "t5 = check_header l t4"
  define t6 where "t6 = check_footer l t5"
  define t7 where "t7 = check_canonical s t6"
  define t8 where "t8 = check_open_graph s t7"
  have b1: "80 \<le> fst t1 \<and> fst t1 \<le> 100"
    using check_title_bounds [of "(100, [])" s] by (simp add: t1_def)
  have b2: "fst t1 - 15 \<le> fst t2 \<and> fst t2 \<le> fst t1"
    unfolding t2_def by (rule check_description_bounds)
  have b3: "fst t2 - 20 \<le> fst t3 \<and> fst t3 \<le> fst t2"
    unfolding t3_def by (rule check_h1_bounds)
  have b4: "fst t3 - 10 \<le> fst t4 \<and> fst t4 \<le> fst t3"
    unfolding t4_def by (rule check_images_bounds)
  have b5: "fst t4 - 5 \<le> fst t5 \<and> fst t5 \<le> fst t4"
    unfolding t5_def by (rule check_header_bounds)
  have b6: "fst t5 - 5 \<le> fst t6 \<and> fst t6 \<le> fst t5"
    unfolding t6_def by (rule check_footer_bounds)
  have b7: "fst t6 - 5 \<le> fst t7 \<and> fst t7 \<le> fst t6"
    unfolding t7_def by (rule check_canonical_bounds)
  have b8: "fst t7 - 10 \<le> fst t8 \<and> fst t8 \<le> fst t7"
    unfolding t8_def by (rule check_open_graph_bounds)
  have eq: "fst (seo_tally s l) = fst t8"
    by (simp add: seo_tally_def t1_def t2_def t3_def t4_def t5_def t6_def t7_def t8_def)
  show ?thesis
    unfolding eq using b1 b2 b3 b4 b5 b6 b7 b8 by arith
qed

text \<open>
  C6. For every SEO and layout input the returned score lies in the range 0..100; it does
  not drop below 0 when every deduction fires together with the capped image penalty.
\<close>

theorem calculateSEOScore_range:
  "0 \<le> score (calculateSEOScore s l) \<and> score (calculateSEOScore s l) \<le> 100"
  using seo_tally_bounds [of s l] by (simp add: calculateSEOScore_def)

subsection \<open>Every point lost is one listed issue\<close>

lemma rev_neq: "rev a \<noteq> rev b \<Longrightarrow> a \<noteq> b"
  by auto

lemma images_issue_neq:
  "images_issue n \<noteq> ''Missing page title''"
  "images_issue n \<noteq> ''Title too long (>60 chars)''"
  "images_issue n \<noteq> ''Missing meta description''"
  "images_issue n \<noteq> ''Meta description too long (>160 chars)''"
  "images_issue n \<noteq> ''No H1 heading found''"
  "images_issue n \<noteq> ''Multiple H1 headings''"
  "images_issue n \<noteq> ''No header element''"
  "images_issue n \<noteq> ''No footer element''"
  "images_issue n \<noteq> ''No canonical URL''"
  "images_issue n \<noteq> ''Missing Open Graph tags''"
  by (rule rev_neq, simp add: images_issue_def)+

lemma explains_skip: "explains s slot t t"
  unfolding explains_def by (rule exI [of _ "[]"]) simp

lemma explains_deduct:
  assumes "m \<in> set slot" and "spec_points s m = d" and "0 < d"
  shows "explains s slot t (deduct d m t)"
  unfolding explains_def using assms
  by (intro exI [of _ "[m]"]) (simp add: subseq_singleton_left)

lemma explains_then:
  assumes "explains s A t0 t1" and "explains s B t1 t2"
  shows "explains s (A @ B) t0 t2"
proof -
  from assms(1) obtain e1 where e1: "subseq e1 A" "snd t1 = snd t0 @ e1"
    "fst t1 = fst t0 - sum_list (map (spec_points s) e1)"
    "list_all (\<lambda>m. 0 < spec_points s m) e1"
    unfolding explains_def by blast
  from assms(2) obtain e2 where e2: "subseq e2 B" "snd t2 = snd t1 @ e2"
    "fst t2 = fst t1 - sum_list (map (spec_points s) e2)"
    "list_all (\<lambda>m. 0 < spec_points s m) e2"
    unfolding explains_def by blast
  have "subseq (e1 @ e2) (A @ B)"
    using e1(1) e2(1) by (rule list_emb_append_mono)
  moreover have "snd t2 = snd t0 @ (e1 @ e2)"
    using e1(2) e2(2) by simp
  moreover have "fst t2 = fst t0 - sum_list (map (spec_points s) (e1 @ e2))"
    using e1(3) e2(3) by simp
  moreover have "list_all (\<lambda>m. 0 < spec_points s m) (e1 @ e2)"
    using e1(4) e2(4) by simp
  ultimately show ?thesis
    unfolding explains_def by blast
qed

lemma explains_title:
  "explains s [''Missing page title'', ''Title too long (>60 chars)''] t (check_title s t)"
  by (simp add: check_title_def explains_skip explains_deduct spec_points_def)

lemma explains_description:
  "explains s [''Missing meta description'', ''Meta description too long (>160 chars)'']
     t (check_description s t)"
  by (simp add: check_description_def explains_skip explains_deduct spec_points_def)

lemma explains_no_h1: "explains s [''No H1 heading found''] t (check_no_h1 s t)"
  by (simp add: check_no_h1_def explains_skip explains_deduct spec_points_def)

lemma explains_multiple_h1: "explains s [''Multiple H1 headings''] t (check_multiple_h1 s t)"
  by (simp add: check_multiple_h1_def explains_skip explains_deduct spec_points_def)

lemma explains_images:
  "explains s [images_issue (imagesWithoutAlt s)] t (check_images s t)"
  by (simp add: check_images_def explains_skip explains_deduct spec_points_def
      images_issue_neq)

lemma explains_header: "explains s [''No header element''] t (check_header l t)"
  by (simp add: check_header_def explains_skip explains_deduct spec_points_def)

lemma explains_footer: "explains s [''No footer element''] t (check_footer l t)"
  by (simp add: check_footer_def explains_skip explains_deduct spec_points_def)

lemma explains_canonical: "explains s [''No canonical URL''] t (check_canonical s t)"
  by (simp add: check_canonical_def explains_skip explains_deduct spec_points_def)

lemma explains_open_graph:
  "explains s [''Missing Open Graph tags''] t (check_open_graph s t)"
  by (simp add: check_open_graph_def explains_skip explains_deduct spec_points_def)

lemma explains_tally: "explains s (spec_check_order s) (100, []) (seo_tally s l)"
proof -
  note steps = explains_then [OF explains_then [OF explains_then [OF explains_then
    [OF explains_then [OF explains_then [OF explains_then [OF explains_then
    [OF explains_title explains_description] explains_no_h1] explains_multiple_h1]
    explains_images] explains_header] explains_footer] explains_canonical]
    explains_open_graph]
  show ?thesis
    using steps [of s "(100, [])" l] by (simp add: seo_tally_def spec_check_order_def)
qed

lemma distinct_check_order: "distinct (spec_check_order s)"
  using images_issue_neq [of "imagesWithoutAlt s"] by (simp add: spec_check_order_def)

lemma sum_list_positive:
  "list_all (\<lambda>m. 0 < f m) e \<Longrightarrow> (sum_list (map f e) = (0::int)) = (e = []) \<and> 0 \<le> sum_list (map f e)"
  by (induction e) auto

text \<open>
  C7. Every deduction appends one issue and every listed issue is one deduction: the
  points lost before the clamp are the sum of the points of the listed issues, the list
  is empty exactly when the score is 100, the issues appear in the fixed check order, and
  no issue is listed twice.
\<close>

theorem calculateSEOScore_explained:
  "100 - fst (seo_tally s l)
     = sum_list (map (spec_points s) (issues (calculateSEOScore s l)))
   \<and> (issues (calculateSEOScore s l) = []) = (score (calculateSEOScore s l) = 100)
   \<and> subseq (issues (calculateSEOScore s l)) (spec_check_order s)
   \<and> distinct (issues (calculateSEOScore s l))"
proof -
  from explains_tally [of s l] obtain e where e: "subseq e (spec_check_order s)"
    "snd (seo_tally s l) = e"
    "fst (seo_tally s l) = 100 - sum_list (map (spec_points s) e)"
    "list_all (\<lambda>m. 0 < spec_points s m) e"
    unfolding explains_def by auto
  have iss: "issues (calculateSEOScore s l) = e"
    using e(2) by (simp add: calculateSEOScore_def)
  have sc: "score (calculateSEOScore s l) = 100 - sum_list (map (spec_points s) e)"
    using seo_tally_bounds [of s l] e(3) by (simp add: calculateSEOScore_def)
  have "e \<in> set (subseqs (spec_check_order s))"
    using e(1) by simp
  then have "distinct e"
    using distinct_check_order by (rule subseqs_distinctD)
  then show ?thesis
    using e(1) e(3) iss sc sum_list_positive [OF e(4)] by auto
qed

section \<open>Accessibility: skipped headings and the issue list\<close>

lemma heading_scan_iff:
  "heading_scan hs i = (\<exists>j. i \<le> j \<and> j < length hs \<and> hs ! j - hs ! (j - 1) > 1)"
proof (induction hs i rule: heading_scan.induct)
  case (1 hs i)
  show ?case
  proof (cases "i < length hs \<and> \<not> hs ! i - hs ! (i - 1) > 1")
    case True
    then have "heading_scan hs i = heading_scan hs (Suc i)"
      by (simp add: heading_scan.simps [of hs i])
    also have "\<dots> = (\<exists>j. Suc i \<le> j \<and> j < length hs \<and> hs ! j - hs ! (j - 1) > 1)"
      using True "1.IH" by simp
    also have "\<dots> = (\<exists>j. i \<le> j \<and> j < length hs \<and> hs ! j - hs ! (j - 1) > 1)"
      using True by (metis Suc_leD Suc_leI le_neq_implies_less)
    finally show ?thesis .
  next
    case False
    then show ?thesis
      by (subst heading_scan.simps) auto
  qed
qed

lemma skipped_iff:
  "heading_scan hs 1 = (\<exists>i. Suc i < length hs \<and> hs ! Suc i - hs ! i > 1)"
proof -
  have "(\<exists>j. 1 \<le> j \<and> j < length hs \<and> hs ! j - hs ! (j - 1) > 1)
      = (\<exists>i. Suc i < length hs \<and> hs ! Suc i - hs ! i > 1)" (is "?L = ?R")
  proof
    assume ?L
    then obtain j where j: "1 \<le> j" "j < length hs" "hs ! j - hs ! (j - 1) > 1"
      by blast
    then obtain i where "j = Suc i"
      by (cases j) auto
    with j show ?R by auto
  next
    assume ?R
    then obtain i where "Suc i < length hs" "hs ! Suc i - hs ! i > 1"
      by blast
    then show ?L
      by (intro exI [of _ "Suc i"]) simp
  qed
  then show ?thesis
    by (simp add: heading_scan_iff)
qed

lemma missing_alt_issue_neq:
  "missing_alt_issue n \<noteq> ''Missing lang attribute on <html>''"
  "missing_alt_issue n \<noteq> ''Links without href attribute''"
  "missing_alt_issue n \<noteq> ''Skipped heading levels detected''"
  by (rule rev_neq, simp add: missing_alt_issue_def)+

lemma skipped_reported_iff:
  "(''Skipped heading levels detected'' \<in> set (checkAccessibility d))
     = heading_scan (headingOrder d) 1"
  by (simp add: checkAccessibility_def Let_def missing_alt_issue_neq
      missing_alt_issue_neq [symmetric])

lemma skipped_examples:
  "''Skipped heading levels detected''
     \<in> set (checkAccessibility (d\<lparr>headingOrder := [1, 2, 4]\<rparr>))"
  "''Skipped heading levels detected''
     \<notin> set (checkAccessibility (d\<lparr>headingOrder := [1, 2, 3]\<rparr>))"
  "''Skipped heading levels detected''
     \<notin> set (checkAccessibility (d\<lparr>headingOrder := [6, 1]\<rparr>))"
  by (simp_all add: skipped_reported_iff heading_scan.simps)

text \<open>
  C8. The skipped-heading issue is reported exactly when two consecutive headings of the
  ordered heading sequence go up by more than one level. It is reported for the sequence
  1, 2, 4 and not for 1, 2, 3; a drop, however large, does not trigger it (6, 1).
\<close>

theorem checkAccessibility_skipped_heading:
  "(''Skipped heading levels detected'' \<in> set (checkAccessibility d))
     = (\<exists>i. Suc i < length (headingOrder d)
            \<and> headingOrder d ! Suc i - headingOrder d ! i > 1)
   \<and> ''Skipped heading levels detected''
        \<in> set (checkAccessibility (d\<lparr>headingOrder := [1, 2, 4]\<rparr>))
   \<and> ''Skipped heading levels detected''
        \<notin> set (checkAccessibility (d\<lparr>headingOrder := [1, 2, 3]\<rparr>))
   \<and> ''Skipped heading levels detected''
        \<notin> set (checkAccessibility (d\<lparr>headingOrder := [6, 1]\<rparr>))"
proof -
  have "(''Skipped heading levels detected'' \<in> set (checkAccessibility d))
     = (\<exists>i. Suc i < length (headingOrder d)
            \<and> headingOrder d ! Suc i - headingOrder d ! i > 1)"
    by (simp only: skipped_reported_iff skipped_iff)
  then show ?thesis
    using skipped_examples [of d] by blast
qed


section \<open>Technology detection: deduplicated output\<close>

lemma str_includes_iff: "str_includes s sub = (\<exists>p q. s = p @ sub @ q)"
proof (induction s)
  case Nil
  then show ?case by auto
next
  case (Cons c cs)
  show ?case
  proof
    assume "str_includes (c # cs) sub"
    then consider "prefix sub (c # cs)" | "str_includes cs sub" by auto
    then show "\<exists>p q. c # cs = p @ sub @ q"
    proof cases
      case 1
      then obtain q where "c # cs = sub @ q" by (auto simp: prefix_def)
      then have "c # cs = [] @ sub @ q" by simp
      then show ?thesis by blast
    next
      case 2
      with Cons.IH obtain p q where "cs = p @ sub @ q" by blast
      then have "c # cs = (c # p) @ sub @ q" by simp
      then show ?thesis by blast
    qed
  next
    assume "\<exists>p q. c # cs = p @ sub @ q"
    then obtain p q where pq: "c # cs = p @ sub @ q" by blast
    show "str_includes (c # cs) sub"
    proof (cases p)
      case Nil
      with pq have "prefix sub (c # cs)" unfolding prefix_def by auto
      then show ?thesis by simp
    next
      case (Cons a p')
      with pq have "cs = p' @ sub @ q" by simp
      with Cons.IH show ?thesis by auto
    qed
  qed
qed

lemma join_member: "u \<in> set xs \<Longrightarrow> \<exists>p q. join sep xs = p @ u @ q"
proof (induction sep xs rule: join.induct)
  case (1 sep)
  then show ?case by simp
next
  case (2 sep x)
  then have "join sep [x] = [] @ u @ []" by simp
  then show ?case by blast
next
  case (3 sep x y ys)
  show ?case
  proof (cases "u = x")
    case True
    then have "join sep (x # y # ys) = [] @ u @ (sep @ join sep (y # ys))" by simp
    then show ?thesis by blast
  next
    case False
    with 3 obtain p q where "join sep (y # ys) = p @ u @ q" by auto
    then have "join sep (x # y # ys) = (x @ sep @ p) @ u @ q" by simp
    then show ?thesis by blast
  qed
qed

lemma next_lower: "toLowerCase ''_next/static/'' = ''_next'' @ ''/static/''"
  by (simp add: toLowerCase_def lower_char_def)

lemma includes_scriptString:
  assumes "u \<in> set scripts" and "str_includes u ''_next/static/''"
  shows "str_includes (toLowerCase (join '' '' scripts)) ''_next''"
proof -
  from assms(2) obtain a b where u: "u = a @ ''_next/static/'' @ b"
    unfolding str_includes_iff by blast
  from join_member [OF assms(1)] obtain p q where "join '' '' scripts = p @ u @ q"
    by blast
  then have "toLowerCase (join '' '' scripts)
      = toLowerCase (p @ a) @ ''_next'' @ (''/static/'' @ toLowerCase (b @ q))"
    using u next_lower by (simp add: toLowerCase_def)
  then show ?thesis
    unfolding str_includes_iff by blast
qed

lemma set_add_inv:
  "distinct acc \<Longrightarrow>
     distinct (set_add acc x) \<and> set (set_add acc x) = insert x (set acc)"
  by (auto simp: set_add_def)

lemma foldl_set_add:
  "distinct acc \<Longrightarrow>
     distinct (foldl set_add acc xs) \<and> set (foldl set_add acc xs) = set acc \<union> set xs"
proof (induction xs arbitrary: acc)
  case Nil
  then show ?case by simp
next
  case (Cons x xs)
  from set_add_inv [OF Cons.prems, of x] Cons.IH [of "set_add acc x"]
  show ?case by auto
qed

lemma set_spread_distinct: "distinct (set_spread xs)"
  using foldl_set_add [of "[]" xs] by (simp add: set_spread_def)

lemma set_spread_set: "set (set_spread xs) = set xs"
  using foldl_set_add [of "[]" xs] by (simp add: set_spread_def)

lemma count_distinct: "distinct xs \<Longrightarrow> x \<in> set xs \<Longrightarrow> count_list xs x = 1"
  by (induction xs) auto

lemma set_push_if: "set (push_if b x xs) = (if b then insert x (set xs) else set xs)"
  by (simp add: push_if_def)

lemma detectTechStack_distinct: "distinct (detectTechStack g scripts html)"
  by (simp add: detectTechStack_def Let_def set_spread_distinct)

lemma detectTechStack_next:
  assumes "\<exists>u \<in> set scripts. str_includes u ''_next/static/''"
  shows "count_list (detectTechStack g scripts html) ''Next.js'' = 1"
proof -
  from assms have "str_includes (toLowerCase (join '' '' scripts)) ''_next''"
    using includes_scriptString by blast
  then have "''Next.js'' \<in> set (detectTechStack g scripts html)"
    by (simp add: detectTechStack_def Let_def set_spread_set set_push_if)
  with detectTechStack_distinct show ?thesis by (rule count_distinct)
qed

lemma push_if_append: "push_if b x xs = xs @ (if b then [x] else [])"
  by (simp add: push_if_def)

lemma spec_matched_names_Nil: "spec_matched_names [] text = []"
  by (simp add: spec_matched_names_def)

lemma spec_matched_names_Cons:
  "spec_matched_names ((sig, name) # table) text
     = (if str_includes text sig then [name] else []) @ spec_matched_names table text"
  by (simp add: spec_matched_names_def)

text \<open>The names pushed by the source are the matched names of the two tables, in order.\<close>

lemma detectTechStack_table:
  "detectTechStack g scripts html
     = set_spread (spec_generator_names g
         @ spec_matched_names spec_script_signatures (toLowerCase (join '' '' scripts))
         @ spec_matched_names spec_root_signatures (toLowerCase html))"
  unfolding detectTechStack_def Let_def spec_script_signatures_def spec_root_signatures_def
    spec_generator_names_def
  by (simp only: push_if_append spec_matched_names_Cons spec_matched_names_Nil append_assoc
      append_Nil2 append_Nil)

text \<open>
  C9. The returned list is the deduplicated union of the matched names: its elements are
  the generator (when there is one), the names whose signature occurs in the lower-cased
  script URLs and the names whose root-element signature occurs in the lower-cased
  document, and no name appears twice. When some script source URL contains the path
  segment \<open>_next/static/\<close>, in one URL or in several, the list contains \<open>Next.js\<close>
  exactly once.
\<close>

theorem detectTechStack_deduplicated:
  "set (detectTechStack g scripts html)
     = set (spec_generator_names g)
       \<union> set (spec_matched_names spec_script_signatures (toLowerCase (join '' '' scripts)))
       \<union> set (spec_matched_names spec_root_signatures (toLowerCase html))
   \<and> distinct (detectTechStack g scripts html)
   \<and> ((\<exists>u \<in> set scripts. str_includes u ''_next/static/'')
        \<longrightarrow> count_list (detectTechStack g scripts html) ''Next.js'' = 1)"
proof -
  have "set (detectTechStack g scripts html)
     = set (spec_generator_names g)
       \<union> set (spec_matched_names spec_script_signatures (toLowerCase (join '' '' scripts)))
       \<union> set (spec_matched_names spec_root_signatures (toLowerCase html))"
    by (simp only: detectTechStack_table set_spread_set set_append Un_assoc)
  then show ?thesis
    using detectTechStack_distinct detectTechStack_next by blast
qed

theorem detectTechStack_deduplicated_witness:
  "(\<exists>u \<in> set [''//a.io/_next/static/m.js'', [], ''//a.io/_next/static/p.js''].
       str_includes u ''_next/static/'')
   \<and> count_list (detectTechStack (Some ''Next.js'')
        [''//a.io/_next/static/m.js'', [], ''//a.io/_next/static/p.js'']
        ''<div id=\"__next\">'') ''Next.js'' = 1"
  using detectTechStack_deduplicated [of "Some ''Next.js''"
      "[''//a.io/_next/static/m.js'', [], ''//a.io/_next/static/p.js'']"
      "''<div id=\"__next\">''"]
  by simp

section \<open>URL normalizer: what it returns\<close>

lemma normalizeUrl_unparsable:
  "url_parse after_scheme input = None \<Longrightarrow>
     normalizeUrl after_scheme input = ''https://'' @ input"
  by (simp add: normalizeUrl_def)

lemma https_scheme: "scheme_start_state ''https:'' = Some (''https'', [])"
  by (simp add: scheme_start_state_def scheme_char_def ascii_alpha_def ascii_digit_def
      lower_char_def)

lemma set_protocol_https:
  "set_protocol u ''https:'' =
     (if \<not> special_scheme (scheme u) \<or> (scheme u = ''file'' \<and> host u = Some []) then u
      else u\<lparr>scheme := ''https'', port := (if port u = Some 443 then None else port u)\<rparr>)"
proof -
  have "filter (\<lambda>c. \<not> tab_or_newline c) (''https:'' @ '':'') = ''https::''"
    by (simp add: tab_or_newline_def)
  moreover have "scheme_start_state ''https::'' = Some (''https'', '':'')"
    by (simp add: scheme_start_state_def scheme_char_def ascii_alpha_def ascii_digit_def
        lower_char_def)
  moreover have "special_scheme ''https''"
    by (simp add: special_scheme_def)
  ultimately show ?thesis
    by (simp add: set_protocol_def default_port_def)
qed

text \<open>
  Where the constructor accepts the input and the scheme is special (other than a
  \<open>file\<close> URL with an empty host), the result begins with \<open>https://\<close>.
\<close>

lemma normalizeUrl_special:
  assumes "url_parse after_scheme input = Some u" and "special_scheme (scheme u)"
    and "host u \<noteq> None" and "\<not> (scheme u = ''file'' \<and> host u = Some [])"
  shows "prefix ''https://'' (normalizeUrl after_scheme input)"
proof -
  from assms(3) obtain h where h: "host u = Some h"
    by auto
  then show ?thesis
    using assms(1,2,4) by (simp add: normalizeUrl_def set_protocol_https href_def)
qed

text \<open>
  C4. The normalizer never raises, and it returns \<open>https://\<close> followed by the input when
  the input does not parse. It does not return a string beginning with \<open>https://\<close> for
  every input: \<open>example.com:8080\<close> parses as a URL with the scheme \<open>example.com\<close>, the
  assignment of \<open>https:\<close> to its protocol is ignored, and the input comes back unchanged.
\<close>

theorem normalizeUrl_keeps_foreign_scheme:
  "normalizeUrl after_scheme ''example.com:8080'' = ''example.com:8080''
   \<and> \<not> prefix ''https://'' (normalizeUrl after_scheme ''example.com:8080'')"
proof -
  have "strip_input ''example.com:8080'' = ''example.com:8080''"
    by (simp add: strip_input_def c0_or_space_def tab_or_newline_def)
  moreover have "scheme_start_state ''example.com:8080'' = Some (''example.com'', ''8080'')"
    by (simp add: scheme_start_state_def scheme_char_def ascii_alpha_def ascii_digit_def
        lower_char_def)
  moreover have "\<not> special_scheme ''example.com''"
    by (simp add: special_scheme_def)
  moreover have "plain_opaque ''8080''"
    by (simp add: plain_opaque_def)
  ultimately have "url_parse after_scheme ''example.com:8080''
      = Some \<lparr>scheme = ''example.com'', username = [], password = [], host = None,
              port = None, path = Opaque ''8080'', query = None, fragment = None\<rparr>"
    by (simp add: url_parse_def)
  then have "normalizeUrl after_scheme ''example.com:8080'' = ''example.com:8080''"
    using \<open>\<not> special_scheme ''example.com''\<close>
    by (simp add: normalizeUrl_def set_protocol_https href_def path_string_def)
  then show ?thesis
    by simp
qed

section \<open>The analyze route: page contexts\<close>

lemma pages_of_snoc: "pages_of (tr @ [ev]) = track (pages_of tr) ev"
  by (simp add: pages_of_def)

lemma neutral_ret: "neutral (ret a)"
  by (simp add: neutral_def ret_def)

lemma neutral_throw_error: "neutral (throw_error e)"
  by (simp add: neutral_def throw_error_def)

lemma neutral_await:
  "c \<noteq> NewPage \<Longrightarrow> c \<noteq> ClosePage \<Longrightarrow> neutral (await c r)"
  by (cases r) (simp_all add: neutral_def await_def phase_def pages_of_snoc track_def)

lemma neutral_and_then:
  assumes "neutral m" and "\<And>a. neutral (f a)"
  shows "neutral (and_then m f)"
  unfolding neutral_def
proof
  fix s
  obtain r s' where m: "m s = (r, s')"
    by (cases "m s")
  with assms(1) have s': "phase s' = phase s"
    by (metis neutral_def snd_conv)
  show "phase (snd (and_then m f s)) = phase s"
  proof (cases r)
    case (Inl e)
    with m s' show ?thesis by (simp add: and_then_def)
  next
    case (Inr a)
    with m have "and_then m f s = f a s'" by (simp add: and_then_def)
    with assms(2) [of a] s' show ?thesis by (simp add: neutral_def)
  qed
qed

lemma neutral_try_catch:
  assumes "neutral m" and "\<And>e. neutral (h e)"
  shows "neutral (try_catch m h)"
  unfolding neutral_def
proof
  fix s
  obtain r s' where m: "m s = (r, s')"
    by (cases "m s")
  with assms(1) have s': "phase s' = phase s"
    by (metis neutral_def snd_conv)
  show "phase (snd (try_catch m h s)) = phase s"
  proof (cases r)
    case (Inr a)
    with m s' show ?thesis by (simp add: try_catch_def)
  next
    case (Inl e)
    with m have "try_catch m h s = h e s'" by (simp add: try_catch_def)
    with assms(2) [of e] s' show ?thesis by (simp add: neutral_def)
  qed
qed

lemma neutral_logged:
  "neutral (\<lambda>s. (Inr (), s\<lparr>trace := trace s @ [LoadedWith w], loadSuccess := True\<rparr>))"
  by (simp add: neutral_def phase_def pages_of_snoc track_def)

lemma neutral_load_with: "neutral (load_with e target w timeout)"
  unfolding load_with_def
  by (intro neutral_and_then neutral_await neutral_logged) simp_all

lemma neutral_navigate: "neutral (navigate e target timeout)"
  unfolding navigate_def
  by (intro neutral_try_catch neutral_load_with neutral_throw_error)

lemma neutral_initBrowser: "neutral (initBrowser e)"
  by (simp add: initBrowser_def neutral_ret neutral_await)

lemma neutral_detectTechStack_on_page: "neutral (detectTechStack_on_page e html)"
  unfolding detectTechStack_on_page_def
  by (intro neutral_and_then neutral_try_catch neutral_await neutral_ret) simp_all

lemma closing_and_then:
  assumes "neutral m" and "\<And>a. closing (f a)"
  shows "closing (and_then m f)"
  unfolding closing_def
proof (intro allI impI)
  fix s
  assume opn: "phase s = (True, pages_open)"
  obtain r s' where m: "m s = (r, s')"
    by (cases "m s")
  with assms(1) have s': "phase s' = phase s"
    by (metis neutral_def snd_conv)
  show "case and_then m f s of
          (Inr a, s') \<Rightarrow> phase s' = (True, pages_released)
        | (Inl e, s') \<Rightarrow> phase s' = (True, pages_open)"
  proof (cases r)
    case (Inl e)
    with m s' opn show ?thesis by (simp add: and_then_def)
  next
    case (Inr a)
    with m have "and_then m f s = f a s'" by (simp add: and_then_def)
    with assms(2) [of a] s' opn show ?thesis by (simp add: closing_def)
  qed
qed

lemma closing_close_page: "closing (and_then (close_page e) (\<lambda>_. ret r))"
  unfolding closing_def
proof (intro allI impI)
  fix s
  assume "phase s = (True, pages_open)"
  then show "case and_then (close_page e) (\<lambda>_. ret r) s of
          (Inr a, s') \<Rightarrow> phase s' = (True, pages_released)
        | (Inl e, s') \<Rightarrow> phase s' = (True, pages_open)"
    by (cases "close_result e (close_calls (trace s))")
      (simp_all add: and_then_def close_page_def await_def ret_def phase_def pages_of_snoc
        track_def pages_open_def pages_released_def)
qed

lemma closing_with_page: "closing (with_page e req target)"
  unfolding with_page_def Let_def
  by (intro closing_and_then closing_close_page neutral_await neutral_navigate
      neutral_detectTechStack_on_page) simp_all


lemma try_block_phase:
  assumes "phase s = (False, pages_none)"
  shows "case try_block k e req s of
           (Inr a, s') \<Rightarrow> phase s' = (False, pages_none) \<or> phase s' = (True, pages_released)
         | (Inl err, s') \<Rightarrow> phase s' = (False, pages_none) \<or> phase s' = (True, pages_open)"
proof -
  obtain r0 s0 where init: "initBrowser e s = (r0, s0)"
    by (cases "initBrowser e s")
  with neutral_initBrowser [of e] assms have s0: "phase s0 = (False, pages_none)"
    by (metis neutral_def snd_conv)
  show ?thesis
  proof (cases r0)
    case (Inl err)
    with init s0 show ?thesis
      by (simp add: try_block_def and_then_def)
  next
    case (Inr u)
    show ?thesis
    proof (cases "\<exists>raw. targetUrl req = Some raw \<and> raw \<noteq> []")
      case False
      with init Inr s0 show ?thesis
        by (auto simp: try_block_def and_then_def ret_def split: option.splits)
    next
      case True
      then obtain raw where raw: "targetUrl req = Some raw" "raw \<noteq> []"
        by blast
      show ?thesis
      proof (cases "newPage_result e")
        case (Inl err)
        with init Inr s0 raw show ?thesis
          by (simp add: try_block_def and_then_def await_def phase_def pages_of_snoc
              track_def)
      next
        case created: (Inr v)
        define s1 where "s1 = s0\<lparr>trace := trace s0 @ [Call NewPage True], page := True\<rparr>"
        have s1: "phase s1 = (True, pages_open)"
          using s0 by (simp add: s1_def phase_def pages_of_snoc track_def pages_none_def
              pages_open_def)
        have "try_block k e req s = with_page e req (normalizeUrl k raw) s1"
          using init Inr raw created
          by (simp add: try_block_def and_then_def await_def s1_def Let_def)
        with closing_with_page [of e req "normalizeUrl k raw"] s1 show ?thesis
          by (auto simp: closing_def split: sum.splits prod.splits)
      qed
    qed
  qed
qed

text \<open>
  When the handler is done, either no page was created, or the page was created and is
  closed, or it was created and is still open.
\<close>

lemma analyze_phase:
  "phase (snd (analyze k e req)) = (False, pages_none)
   \<or> phase (snd (analyze k e req)) = (True, pages_released)
   \<or> phase (snd (analyze k e req)) = (True, pages_open)"
proof -
  from try_block_phase [of start k e req]
  obtain r s where t: "try_block k e req start = (r, s)"
    and ph: "case r of
           Inr a \<Rightarrow> phase s = (False, pages_none) \<or> phase s = (True, pages_released)
         | Inl err \<Rightarrow> phase s = (False, pages_none) \<or> phase s = (True, pages_open)"
    by (cases "try_block k e req start")
      (auto simp: start_def phase_def pages_of_def pages_none_def)
  show ?thesis
  proof (cases r)
    case (Inr a)
    with t ph show ?thesis
      by (auto simp: analyze_def)
  next
    case (Inl err)
    with ph consider "phase s = (False, pages_none)" | "phase s = (True, pages_open)"
      by auto
    then show ?thesis
    proof cases
      case 1
      with t Inl show ?thesis
        by (simp add: analyze_def phase_def)
    next
      case 2
      with t Inl show ?thesis
        by (cases "close_result e (close_calls (trace s))")
          (simp_all add: analyze_def phase_def close_page_def await_def pages_of_snoc
            track_def pages_open_def pages_released_def)
    qed
  qed
qed

text \<open>A request creates at most one page context, and at most that one is ever live.\<close>

lemma analyze_one_page:
  "created (pages_of (trace (snd (analyze k e req)))) \<le> 1
   \<and> peak (pages_of (trace (snd (analyze k e req))))
       = created (pages_of (trace (snd (analyze k e req))))
   \<and> live (pages_of (trace (snd (analyze k e req)))) \<le> 1"
  using analyze_phase [of k e req]
  by (auto simp: phase_def pages_none_def pages_released_def pages_open_def)

text \<open>When no call of \<open>close\<close> rejects, no page context is live when the handler is done.\<close>

lemma analyze_closes_page:
  assumes "\<And>n. close_result e n = Inr ()"
  shows "live (pages_of (trace (snd (analyze k e req)))) = 0"
proof -
  from try_block_phase [of start k e req]
  obtain r s where t: "try_block k e req start = (r, s)"
    and ph: "case r of
           Inr a \<Rightarrow> phase s = (False, pages_none) \<or> phase s = (True, pages_released)
         | Inl err \<Rightarrow> phase s = (False, pages_none) \<or> phase s = (True, pages_open)"
    by (cases "try_block k e req start")
      (auto simp: start_def phase_def pages_of_def pages_none_def)
  show ?thesis
  proof (cases r)
    case (Inr a)
    with t ph show ?thesis
      by (auto simp: analyze_def phase_def pages_none_def pages_released_def)
  next
    case (Inl err)
    with t ph assms show ?thesis
      by (auto simp: analyze_def phase_def close_page_def await_def pages_of_snoc
          track_def pages_none_def pages_open_def)
  qed
qed

section \<open>The analyze route: navigation strategies\<close>

lemma navigate_cases:
  "navigate e target timeout s =
     (case goto_result e NetworkIdle2 of
        Inr _ \<Rightarrow> (Inr (), s\<lparr>trace := trace s @ [Call (Goto target NetworkIdle2 timeout) True,
                     LoadedWith NetworkIdle2], loadSuccess := True\<rparr>)
      | Inl _ \<Rightarrow>
       (case goto_result e DomContentLoaded of
          Inr _ \<Rightarrow> (Inr (), s\<lparr>trace := trace s @ [Call (Goto target NetworkIdle2 timeout) False,
                     Call (Goto target DomContentLoaded timeout) True,
                     LoadedWith DomContentLoaded], loadSuccess := True\<rparr>)
        | Inl _ \<Rightarrow>
         (case goto_result e Load of
            Inr _ \<Rightarrow> (Inr (), s\<lparr>trace := trace s @ [Call (Goto target NetworkIdle2 timeout) False,
                     Call (Goto target DomContentLoaded timeout) False,
                     Call (Goto target Load timeout) True,
                     LoadedWith Load], loadSuccess := True\<rparr>)
          | Inl _ \<Rightarrow> (Inl (new_Error (error_frames e) (unable_to_load target)),
                     s\<lparr>trace := trace s @ [Call (Goto target NetworkIdle2 timeout) False,
                     Call (Goto target DomContentLoaded timeout) False,
                     Call (Goto target Load timeout) False]\<rparr>))))"
  by (simp add: navigate_def load_with_def try_catch_def and_then_def await_def
      throw_error_def split: sum.splits)

text \<open>
  C2. On a page for which the network-idle and the DOM-content-loaded strategies fail and
  the load strategy succeeds, the engine calls \<open>goto\<close> three times, in the order
  network idle, DOM content loaded, load, succeeds at the third call, and the strategy it
  reports as the one the page was loaded with is load.
\<close>

theorem navigate_falls_back_to_load:
  assumes "goto_result e NetworkIdle2 = Inl e1" and "goto_result e DomContentLoaded = Inl e2"
    and "goto_result e Load = Inr ()"
  shows "navigate e target timeout s =
     (Inr (), s\<lparr>trace := trace s @ [Call (Goto target NetworkIdle2 timeout) False,
                     Call (Goto target DomContentLoaded timeout) False,
                     Call (Goto target Load timeout) True,
                     LoadedWith Load], loadSuccess := True\<rparr>)"
  using assms by (simp add: navigate_cases)

theorem navigate_falls_back_to_load_witness:
  "(goto_result load_only_env NetworkIdle2 = Inl navigation_timeout
    \<and> goto_result load_only_env DomContentLoaded = Inl navigation_timeout
    \<and> goto_result load_only_env Load = Inr ())
   \<and> navigate load_only_env ''https://example.com'' 60000 start =
     (Inr (), \<lparr>trace = [Call (Goto ''https://example.com'' NetworkIdle2 60000) False,
                     Call (Goto ''https://example.com'' DomContentLoaded 60000) False,
                     Call (Goto ''https://example.com'' Load 60000) True,
                     LoadedWith Load], page = False, loadSuccess = True\<rparr>)"
  using navigate_falls_back_to_load [of load_only_env navigation_timeout navigation_timeout
      "''https://example.com''" 60000 start]
  by (simp add: load_only_env_def goto_load_only_def start_def)

lemma sample_target: "normalizeUrl k ''example.com'' = ''https://example.com''"
  by (simp add: normalizeUrl_def url_parse_def strip_input_def c0_or_space_def
      tab_or_newline_def scheme_start_state_def scheme_char_def ascii_alpha_def
      ascii_digit_def lower_char_def)

lemma unable_includes: "str_includes (''Error: '' @ unable_to_load target @ frames) target"
  unfolding str_includes_iff unable_to_load_def
  by (rule exI [of _ "''Error: Unable to load ''"]) auto

lemma error_response_details:
  "technicalDetails (error_response (new_Error frames m)) = ''Error: '' @ m @ frames"
  by (simp add: error_response_def new_Error_def technicalDetails_def Let_def)

lemma with_page_navigation_failed:
  assumes "setUserAgent_result e = Inr ()"
    and "goto_result e NetworkIdle2 = Inl e1" and "goto_result e DomContentLoaded = Inl e2"
    and "goto_result e Load = Inl e3"
  shows "with_page e req target s
      = (Inl (new_Error (error_frames e) (unable_to_load target)),
         s\<lparr>trace := trace s @ [Call SetUserAgent True,
            Call (Goto target NetworkIdle2 (if quickMode req then 30000 else 60000)) False,
            Call (Goto target DomContentLoaded (if quickMode req then 30000 else 60000)) False,
            Call (Goto target Load (if quickMode req then 30000 else 60000)) False]\<rparr>)"
  using assms by (simp add: with_page_def and_then_def await_def navigate_cases)

lemma try_block_navigation_failed:
  assumes "targetUrl req = Some raw" and "raw \<noteq> []"
    and "browser_launched e \<or> launch_result e = Inr ()"
    and "newPage_result e = Inr ()" and "setUserAgent_result e = Inr ()"
    and "goto_result e NetworkIdle2 = Inl e1" and "goto_result e DomContentLoaded = Inl e2"
    and "goto_result e Load = Inl e3"
  shows "try_block k e req start
      = (Inl (new_Error (error_frames e) (unable_to_load (normalizeUrl k raw))),
         \<lparr>trace = (if browser_launched e then [] else [Call LaunchBrowser True])
           @ [Call NewPage True, Call SetUserAgent True,
              Call (Goto (normalizeUrl k raw) NetworkIdle2
                      (if quickMode req then 30000 else 60000)) False,
              Call (Goto (normalizeUrl k raw) DomContentLoaded
                      (if quickMode req then 30000 else 60000)) False,
              Call (Goto (normalizeUrl k raw) Load
                      (if quickMode req then 30000 else 60000)) False],
          page = True, loadSuccess = False\<rparr>)"
  using assms(1-4) with_page_navigation_failed [OF assms(5-8)]
  by (auto simp: try_block_def initBrowser_def and_then_def await_def ret_def start_def Let_def)

text \<open>
  After three failed strategies the \<open>catch\<close> block first awaits \<open>page.close()\<close>. When
  that call resolves, the handler answers with the error response built from the
  navigation error; when it rejects, the handler rejects with the error of \<open>close\<close>, the
  response is never built, and the page is still open.
\<close>

lemma analyze_after_failed_navigation:
  assumes "targetUrl req = Some raw" and "raw \<noteq> []"
    and "browser_launched e \<or> launch_result e = Inr ()"
    and "newPage_result e = Inr ()" and "setUserAgent_result e = Inr ()"
    and "goto_result e NetworkIdle2 = Inl e1" and "goto_result e DomContentLoaded = Inl e2"
    and "goto_result e Load = Inl e3"
  shows "analyze k e req
     = (case close_result e 0 of
          Inr u \<Rightarrow> Responded (error_response
                     (new_Error (error_frames e) (unable_to_load (normalizeUrl k raw))))
        | Inl closeError \<Rightarrow> Rejected closeError,
        \<lparr>trace = (if browser_launched e then [] else [Call LaunchBrowser True])
           @ [Call NewPage True, Call SetUserAgent True,
              Call (Goto (normalizeUrl k raw) NetworkIdle2
                      (if quickMode req then 30000 else 60000)) False,
              Call (Goto (normalizeUrl k raw) DomContentLoaded
                      (if quickMode req then 30000 else 60000)) False,
              Call (Goto (normalizeUrl k raw) Load
                      (if quickMode req then 30000 else 60000)) False,
              Call ClosePage (case close_result e 0 of Inr u \<Rightarrow> True | Inl c \<Rightarrow> False)],
          page = True, loadSuccess = False\<rparr>)"
  using try_block_navigation_failed [OF assms, of k]
  by (cases "close_result e 0")
    (simp_all add: analyze_def close_page_def close_calls_def await_def)

lemma analyze_navigation_failed_answered:
  assumes "targetUrl req = Some raw" and "raw \<noteq> []"
    and "browser_launched e \<or> launch_result e = Inr ()"
    and "newPage_result e = Inr ()" and "setUserAgent_result e = Inr ()"
    and "goto_result e NetworkIdle2 = Inl e1" and "goto_result e DomContentLoaded = Inl e2"
    and "goto_result e Load = Inl e3"
    and "close_result e 0 = Inr ()"
  shows "fst (analyze k e req)
       = Responded (error_response
           (new_Error (error_frames e) (unable_to_load (normalizeUrl k raw))))
     \<and> str_includes (technicalDetails (error_response
           (new_Error (error_frames e) (unable_to_load (normalizeUrl k raw)))))
         (normalizeUrl k raw)
     \<and> live (pages_of (trace (snd (analyze k e req)))) = 0"
proof -
  have "str_includes (technicalDetails (error_response
           (new_Error (error_frames e) (unable_to_load (normalizeUrl k raw)))))
         (normalizeUrl k raw)"
    by (simp only: error_response_details unable_includes)
  then show ?thesis
    using assms(9) analyze_after_failed_navigation [OF assms(1-8), of k]
    by (auto simp: pages_of_def track_def)
qed

lemma lost_env_run:
  "analyze unreached lost_env sample_request
     = (Rejected connection_closed,
        \<lparr>trace = [Call NewPage True, Call SetUserAgent True,
                  Call (Goto ''https://example.com'' NetworkIdle2 60000) False,
                  Call (Goto ''https://example.com'' DomContentLoaded 60000) False,
                  Call (Goto ''https://example.com'' Load 60000) False,
                  Call ClosePage False],
          page = True, loadSuccess = False\<rparr>)"
  using analyze_after_failed_navigation [of sample_request "''example.com''" lost_env
      connection_closed connection_closed connection_closed unreached]
  by (simp add: lost_env_def load_only_env_def goto_closed_def close_closed_def
      sample_request_def sample_target)

text \<open>
  C3. The claim: when all three strategies fail, the pipeline surfaces the navigation
  failure with the attempted URL, and no page context remains open. The code does not
  keep it when the connection to the browser is lost: every strategy fails, the
  unguarded \<open>await page.close()\<close> of the \<open>catch\<close> block rejects as well, and the
  handler rejects with the error of \<open>close\<close> without sending any response.
\<close>

theorem analyze_navigation_failed_unanswered:
  "goto_result lost_env NetworkIdle2 = Inl connection_closed
   \<and> goto_result lost_env DomContentLoaded = Inl connection_closed
   \<and> goto_result lost_env Load = Inl connection_closed
   \<and> fst (analyze unreached lost_env sample_request) = Rejected connection_closed"
  by (simp add: lost_env_run) (simp add: lost_env_def load_only_env_def goto_closed_def)


end
